theory Spec2Isabelle
  imports Main "HOL-Library.AList"
begin

section \<open>Values of the TemplateInstance documents\<close>

text \<open>
  \<open>perform_migrations\<close> receives the result of \<open>resource.get().to_dict()\<close>: a tree of
  Python dictionaries, lists, strings, integers, booleans and \<open>None\<close>. A dictionary is an
  association list read by \<open>map_of\<close> (the first binding of a key is the binding) and
  written by \<open>AList.update\<close> (an existing key keeps its place, a new key goes last), as
  a Python \<open>dict\<close> does; the keys of a dictionary are distinct. The tree has no sharing:
  \<open>to_dict\<close> builds every node afresh. A float is left out: in every operation the
  module applies (truth value, subscript, \<open>get\<close>, iteration, hashing, comparison with a
  string) it behaves as an integer does.
\<close>

datatype pyval =
    PNone
  | PBool bool
  | PInt int
  | PStr string
  | PList "pyval list"
  | PDict "(string \<times> pyval) list"

text \<open>The exceptions the operations on these values raise.\<close>

datatype error =
    KeyError pyval
  | IndexError
  | TypeError
  | AttributeError

definition bind_err :: "error + 'a \<Rightarrow> ('a \<Rightarrow> error + 'b) \<Rightarrow> error + 'b" where
  "bind_err m f = (case m of Inl e \<Rightarrow> Inl e | Inr x \<Rightarrow> f x)"

text \<open>Truth value of an object in a condition (\<open>if objects:\<close>, \<open>and\<close>, \<open>or\<close>).\<close>

fun truthy :: "pyval \<Rightarrow> bool" where
  "truthy PNone = False"
| "truthy (PBool b) = b"
| "truthy (PInt n) = (n \<noteq> 0)"
| "truthy (PStr s) = (s \<noteq> [])"
| "truthy (PList xs) = (xs \<noteq> [])"
| "truthy (PDict kvs) = (kvs \<noteq> [])"

text \<open>\<open>v[k]\<close> for a string literal \<open>k\<close>: only a dictionary can be subscripted by a string.\<close>

fun py_getitem :: "pyval \<Rightarrow> string \<Rightarrow> error + pyval" where
  "py_getitem (PDict kvs) k =
     (case map_of kvs k of None \<Rightarrow> Inl (KeyError (PStr k)) | Some v \<Rightarrow> Inr v)"
| "py_getitem v k = Inl TypeError"

text \<open>\<open>v.get(k)\<close>: only a dictionary has the method; a missing key gives \<open>None\<close>.\<close>

fun py_get :: "pyval \<Rightarrow> string \<Rightarrow> error + pyval" where
  "py_get (PDict kvs) k = Inr (case map_of kvs k of None \<Rightarrow> PNone | Some v \<Rightarrow> v)"
| "py_get v k = Inl AttributeError"

text \<open>\<open>v[i]\<close> for the index \<open>i \<ge> 0\<close> that \<open>enumerate\<close> counts.\<close>

fun py_index :: "pyval \<Rightarrow> nat \<Rightarrow> error + pyval" where
  "py_index (PList xs) i = (if i < length xs then Inr (xs ! i) else Inl IndexError)"
| "py_index (PStr s) i = (if i < length s then Inr (PStr [s ! i]) else Inl IndexError)"
| "py_index (PDict kvs) i = Inl (KeyError (PInt (int i)))"
| "py_index v i = Inl TypeError"

text \<open>\<open>v[k] = x\<close> for a string literal \<open>k\<close>; the result is the container after the store.\<close>

fun py_setitem :: "pyval \<Rightarrow> string \<Rightarrow> pyval \<Rightarrow> error + pyval" where
  "py_setitem (PDict kvs) k x = Inr (PDict (AList.update k x kvs))"
| "py_setitem v k x = Inl TypeError"

text \<open>The elements a \<open>for\<close> loop (or \<open>enumerate\<close>) draws from a value.\<close>

fun py_iter :: "pyval \<Rightarrow> error + pyval list" where
  "py_iter (PList xs) = Inr xs"
| "py_iter (PStr s) = Inr (map (\<lambda>c. PStr [c]) s)"
| "py_iter (PDict kvs) = Inr (map (\<lambda>kv. PStr (fst kv)) kvs)"
| "py_iter v = Inl TypeError"

text \<open>
  A store into a nested dictionary is seen through every container that holds it. Without
  sharing, that is the container rebuilt around the changed child.
\<close>

fun dict_put :: "pyval \<Rightarrow> string \<Rightarrow> pyval \<Rightarrow> pyval" where
  "dict_put (PDict kvs) k x = PDict (AList.update k x kvs)"
| "dict_put v k x = v"

fun list_put :: "pyval \<Rightarrow> nat \<Rightarrow> pyval \<Rightarrow> pyval" where
  "list_put (PList xs) i x = PList (xs[i := x])"
| "list_put v i x = v"

section \<open>The migration of the object references\<close>

text \<open>The module's table \<open>transforms\<close>, from a kind to its group and version.\<close>

definition transforms :: "(string \<times> string) list" where
  "transforms =
     [(''Build'', ''build.openshift.io/v1''),
      (''BuildConfig'', ''build.openshift.io/v1''),
      (''DeploymentConfig'', ''apps.openshift.io/v1''),
      (''Route'', ''route.openshift.io/v1'')]"

text \<open>
  \<open>object_type in transforms.keys()\<close>: a list or a dictionary cannot be hashed; any other
  value that is not a string equals no key.
\<close>

fun transforms_contains :: "pyval \<Rightarrow> error + bool" where
  "transforms_contains (PStr k) = Inr (map_of transforms k \<noteq> None)"
| "transforms_contains (PList xs) = Inl TypeError"
| "transforms_contains (PDict kvs) = Inl TypeError"
| "transforms_contains v = Inr False"

text \<open>\<open>transforms[object_type]\<close>.\<close>

fun transforms_getitem :: "pyval \<Rightarrow> error + pyval" where
  "transforms_getitem (PStr k) =
     (case map_of transforms k of None \<Rightarrow> Inl (KeyError (PStr k)) | Some v \<Rightarrow> Inr (PStr v))"
| "transforms_getitem (PList xs) = Inl TypeError"
| "transforms_getitem (PDict kvs) = Inl TypeError"
| "transforms_getitem v = Inl (KeyError v)"

text \<open>
  The condition of the inner \<open>if\<close>:
  \<open>object_type in transforms.keys() and obj["ref"].get("apiVersion") != transforms[object_type]\<close>,
  with the right operand evaluated only when the left one holds. The right operand compares
  with a string, and a value equals a string exactly when it is that string.
\<close>

definition needs_migration :: "pyval \<Rightarrow> pyval \<Rightarrow> error + bool" where
  "needs_migration obj object_type =
     bind_err (transforms_contains object_type) (\<lambda>known.
       if known then
         bind_err (py_getitem obj ''ref'') (\<lambda>ref.
         bind_err (py_get ref ''apiVersion'') (\<lambda>current.
         bind_err (transforms_getitem object_type) (\<lambda>canonical.
           Inr (current \<noteq> canonical))))
       else Inr False)"

text \<open>
  The store \<open>ti_elem["status"]["objects"][i]["ref"]["apiVersion"] = x\<close>: four reads down
  to the reference, the store into it, and the record as it reads afterwards.
\<close>

definition set_apiVersion :: "pyval \<Rightarrow> nat \<Rightarrow> pyval \<Rightarrow> error + pyval" where
  "set_apiVersion ti_elem i x =
     bind_err (py_getitem ti_elem ''status'') (\<lambda>status.
     bind_err (py_getitem status ''objects'') (\<lambda>objects.
     bind_err (py_index objects i) (\<lambda>obj.
     bind_err (py_getitem obj ''ref'') (\<lambda>ref.
     bind_err (py_setitem ref ''apiVersion'' x) (\<lambda>ref'.
       Inr (dict_put ti_elem ''status''
             (dict_put status ''objects''
               (list_put objects i (dict_put obj ''ref'' ref')))))))))"

text \<open>
  The inner loop \<open>for i, obj in enumerate(objects)\<close>, from index \<open>i\<close> on. The state is the
  record \<open>ti_elem\<close>; the result is the record after the loop and the number of times the
  loop appended it to \<open>ti_to_be_migrated\<close>. The elements still to come are those of the
  list when the loop began: a store changes only the element already drawn.
\<close>

fun migrate_objects :: "pyval \<Rightarrow> nat \<Rightarrow> pyval list \<Rightarrow> error + (pyval \<times> nat)" where
  "migrate_objects ti_elem i [] = Inr (ti_elem, 0)"
| "migrate_objects ti_elem i (obj # rest) =
     bind_err (py_getitem obj ''ref'') (\<lambda>ref.
     bind_err (py_getitem ref ''kind'') (\<lambda>object_type.
     bind_err (needs_migration obj object_type) (\<lambda>stale.
       if stale then
         bind_err (transforms_getitem object_type) (\<lambda>canonical.
         bind_err (set_apiVersion ti_elem i canonical) (\<lambda>ti_elem'.
         bind_err (migrate_objects ti_elem' (Suc i) rest) (\<lambda>r.
           Inr (fst r, Suc (snd r)))))
       else migrate_objects ti_elem (Suc i) rest)))"

text \<open>The body of the outer loop, for one record.\<close>

definition migrate_elem :: "pyval \<Rightarrow> error + (pyval \<times> nat)" where
  "migrate_elem ti_elem =
     bind_err (py_getitem ti_elem ''status'') (\<lambda>status.
     bind_err (py_get status ''objects'') (\<lambda>objects.
       if truthy objects then
         bind_err (py_iter objects) (\<lambda>objs. migrate_objects ti_elem 0 objs)
       else Inr (ti_elem, 0)))"

text \<open>
  The outer loop \<open>for ti_elem in ti_list\<close>. \<open>ti_to_be_migrated\<close> holds references to the
  records, not copies: the model keeps it as the list of the positions appended, the
  record at position \<open>a\<close> being the \<open>a\<close>-th element of \<open>ti_list\<close>.
\<close>

fun migrate_loop :: "nat \<Rightarrow> pyval list \<Rightarrow> error + (pyval list \<times> nat list)" where
  "migrate_loop a [] = Inr ([], [])"
| "migrate_loop a (ti_elem # rest) =
     bind_err (migrate_elem ti_elem) (\<lambda>r.
     bind_err (migrate_loop (Suc a) rest) (\<lambda>rs.
       Inr (fst r # fst rs, replicate (snd r) a @ snd rs)))"

text \<open>
  The state \<open>perform_migrations\<close> leaves: the records of \<open>ti_list\<close> after the stores, and
  the positions appended to \<open>ti_to_be_migrated\<close>, in order.
\<close>

record migration =
  records :: "pyval list"
  migrated :: "nat list"

text \<open>
  \<open>kind == "TemplateInstanceList" and items or [templateinstances]\<close>: the value of the
  \<open>and\<close> is \<open>False\<close> when the kinds differ and \<open>items\<close> otherwise; the \<open>or\<close> takes it when it
  is true and the one-element list otherwise.
\<close>

definition select_ti_list :: "pyval \<Rightarrow> error + pyval" where
  "select_ti_list templateinstances =
     bind_err (py_get templateinstances ''kind'') (\<lambda>kind.
     bind_err (if kind = PStr ''TemplateInstanceList''
               then py_get templateinstances ''items'' else Inr (PBool False)) (\<lambda>chosen.
       Inr (if truthy chosen then chosen else PList [templateinstances])))"

definition perform_migrations :: "pyval \<Rightarrow> error + migration" where
  "perform_migrations templateinstances =
     bind_err (select_ti_list templateinstances) (\<lambda>ti_list.
     bind_err (py_iter ti_list) (\<lambda>elems.
     bind_err (migrate_loop 0 elems) (\<lambda>rs.
       Inr \<lparr>records = fst rs, migrated = snd rs\<rparr>)))"

text \<open>What the caller reads in the returned list \<open>ti_to_be_migrated\<close>.\<close>

definition returned :: "migration \<Rightarrow> pyval list" where
  "returned m = map (\<lambda>a. records m ! a) (migrated m)"

section \<open>The module's run\<close>

text \<open>
  \<open>execute_module\<close> talks to the cluster through \<open>resource\<close>, which the base class
  finds (\<open>find_resource\<close> with \<open>fail=True\<close>); the model starts once it is found. The
  cluster is a parameter: what \<open>resource.get(...).to_dict()\<close> and
  \<open>resource.status.patch(...).to_dict()\<close> answer, or the exception they raise.
\<close>

datatype api_exc =
    DynamicApiError string string string
  | OtherException string

record client =
  get_namespaced :: "string \<Rightarrow> api_exc + pyval"
  get_all :: "api_exc + pyval"
  status_patch :: "pyval \<Rightarrow> api_exc + pyval"

text \<open>The calls made on the cluster, in order.\<close>

datatype call =
    Get "string option"
  | Patch pyval

text \<open>
  How the run ends: \<open>exit_json\<close> with \<open>changed\<close> and \<open>result\<close>, \<open>fail_json\<close> (the message
  is formatted from the namespace or the record's name and from the exception), or an
  exception nobody catches.
\<close>

datatype failure =
    Retrieve_failed string api_exc
  | Migrate_failed pyval api_exc

datatype outcome =
    Exit_json bool "pyval list"
  | Fail_json failure
  | Raised_api api_exc
  | Raised error

text \<open>
  \<open>patch_template_instance\<close>: the handler of a failed patch reads
  \<open>templateinstance["metadata"]["name"]\<close> for the message, which can raise in turn.
\<close>

definition patch_template_instance :: "client \<Rightarrow> pyval \<Rightarrow> outcome + pyval" where
  "patch_template_instance c templateinstance =
     (case status_patch c templateinstance of
        Inr result \<Rightarrow> Inr result
      | Inl exc \<Rightarrow>
          (case bind_err (py_getitem templateinstance ''metadata'')
                  (\<lambda>metadata. py_getitem metadata ''name'') of
             Inl e \<Rightarrow> Inl (Raised e)
           | Inr name \<Rightarrow> Inl (Fail_json (Migrate_failed name exc))))"

text \<open>
  The loop \<open>for ti_elem in ti_to_be_migrated\<close> of the run, appending each patched record
  to \<open>results["result"]\<close>; it stops at the first patch that does not return.
\<close>

fun patch_loop :: "client \<Rightarrow> pyval list \<Rightarrow> call list \<times> (outcome + pyval list)" where
  "patch_loop c [] = ([], Inr [])"
| "patch_loop c (ti_elem # rest) =
     (case patch_template_instance c ti_elem of
        Inl out \<Rightarrow> ([Patch ti_elem], Inl out)
      | Inr patched \<Rightarrow>
          (case patch_loop c rest of
             (calls, Inl out) \<Rightarrow> (Patch ti_elem # calls, Inl out)
           | (calls, Inr result) \<Rightarrow> (Patch ti_elem # calls, Inr (patched # result))))"

text \<open>\<open>if namespace:\<close> on the parameter, a string or \<open>None\<close>.\<close>

fun namespace_given :: "string option \<Rightarrow> bool" where
  "namespace_given None = False"
| "namespace_given (Some ns) = (ns \<noteq> [])"

definition execute_module :: "client \<Rightarrow> string option \<Rightarrow> bool \<Rightarrow> call list \<times> outcome" where
  "execute_module c namespace check_mode =
     (if namespace_given namespace then
        (case get_namespaced c (the namespace) of
           Inl exc \<Rightarrow> ([Get namespace], Fail_json (Retrieve_failed (the namespace) exc))
         | Inr templateinstances \<Rightarrow> ([Get namespace], Exit_json False []))
      else
        (case get_all c of
           Inl exc \<Rightarrow> ([Get None], Raised_api exc)
         | Inr templateinstances \<Rightarrow>
             (case perform_migrations templateinstances of
                Inl e \<Rightarrow> ([Get None], Raised e)
              | Inr m \<Rightarrow>
                  (let ti_to_be_migrated = returned m in
                   if ti_to_be_migrated \<noteq> [] then
                     if check_mode then ([Get None], Exit_json True ti_to_be_migrated)
                     else
                       (case patch_loop c ti_to_be_migrated of
                          (calls, Inl out) \<Rightarrow> (Get None # calls, out)
                        | (calls, Inr result) \<Rightarrow> (Get None # calls, Exit_json True result))
                   else ([Get None], Exit_json False [])))))"

section \<open>The specification's vocabulary\<close>

text \<open>
  An entry of \<open>status.objects\<close> carries its object reference under \<open>ref\<close>; the reference
  has a \<open>kind\<close> and, possibly, an \<open>apiVersion\<close>.
\<close>

definition entry_ref :: "pyval \<Rightarrow> (string \<times> pyval) list option" where
  "entry_ref obj =
     (case obj of
        PDict kvs \<Rightarrow> (case map_of kvs ''ref'' of Some (PDict r) \<Rightarrow> Some r | _ \<Rightarrow> None)
      | _ \<Rightarrow> None)"

definition api_version :: "pyval \<Rightarrow> pyval option" where
  "api_version obj = (case entry_ref obj of None \<Rightarrow> None | Some r \<Rightarrow> map_of r ''apiVersion'')"

fun hashable :: "pyval \<Rightarrow> bool" where
  "hashable (PList xs) = False"
| "hashable (PDict kvs) = False"
| "hashable v = True"

text \<open>An entry the loop body reads without raising: a reference with a kind.\<close>

definition well_formed_entry :: "pyval \<Rightarrow> bool" where
  "well_formed_entry obj =
     (case entry_ref obj of
        None \<Rightarrow> False
      | Some r \<Rightarrow> (case map_of r ''kind'' of None \<Rightarrow> False | Some k \<Rightarrow> hashable k))"

text \<open>The canonical version of a kind, when the table has one.\<close>

definition select_canonical_version :: "pyval \<Rightarrow> string option" where
  "select_canonical_version kind = (case kind of PStr k \<Rightarrow> map_of transforms k | _ \<Rightarrow> None)"

definition entry_canonical :: "pyval \<Rightarrow> string option" where
  "entry_canonical obj =
     (case entry_ref obj of
        None \<Rightarrow> None
      | Some r \<Rightarrow> (case map_of r ''kind'' of None \<Rightarrow> None | Some k \<Rightarrow> select_canonical_version k))"

text \<open>
  A stale reference: its kind has a canonical version and its stored \<open>apiVersion\<close> is not
  that version (also when it has none).
\<close>

definition stale :: "pyval \<Rightarrow> bool" where
  "stale obj =
     (case entry_canonical obj of
        None \<Rightarrow> False
      | Some v \<Rightarrow> api_version obj \<noteq> Some (PStr v))"

text \<open>The entry with its reference's \<open>apiVersion\<close> set to the canonical version, if stale.\<close>

definition rewrite :: "pyval \<Rightarrow> pyval" where
  "rewrite obj =
     (if stale obj then
        (case obj of
           PDict kvs \<Rightarrow>
             (case (entry_ref obj, entry_canonical obj) of
                (Some r, Some v) \<Rightarrow>
                  PDict (AList.update ''ref'' (PDict (AList.update ''apiVersion'' (PStr v) r)) kvs)
              | _ \<Rightarrow> obj)
         | _ \<Rightarrow> obj)
      else obj)"

text \<open>The record's list under \<open>status.objects\<close>, and the record with that list replaced.\<close>

definition has_objects :: "pyval \<Rightarrow> pyval list \<Rightarrow> bool" where
  "has_objects t xs =
     (case t of
        PDict kvs \<Rightarrow>
          (case map_of kvs ''status'' of
             Some (PDict st) \<Rightarrow> map_of st ''objects'' = Some (PList xs)
           | _ \<Rightarrow> False)
      | _ \<Rightarrow> False)"

definition put_objects :: "pyval \<Rightarrow> pyval list \<Rightarrow> pyval" where
  "put_objects t xs =
     (case t of
        PDict kvs \<Rightarrow>
          (case map_of kvs ''status'' of
             Some (PDict st) \<Rightarrow>
               PDict (AList.update ''status'' (PDict (AList.update ''objects'' (PList xs) st)) kvs)
           | _ \<Rightarrow> t)
      | _ \<Rightarrow> t)"

text \<open>
  The object references of a record: the list at \<open>status.objects\<close>, and none when the
  path is absent or holds no list.
\<close>

definition references :: "pyval \<Rightarrow> pyval list" where
  "references t =
     (case t of
        PDict kvs \<Rightarrow>
          (case map_of kvs ''status'' of
             Some (PDict st) \<Rightarrow> (case map_of st ''objects'' of Some (PList xs) \<Rightarrow> xs | _ \<Rightarrow> [])
           | _ \<Rightarrow> [])
      | _ \<Rightarrow> [])"

text \<open>
  A record the outer loop body reads without raising: a dictionary whose \<open>status\<close> is a
  dictionary, with \<open>objects\<close> absent, false in a condition, or a list of well-formed
  entries.
\<close>

definition well_formed_record :: "pyval \<Rightarrow> bool" where
  "well_formed_record t =
     (case t of
        PDict kvs \<Rightarrow>
          (case map_of kvs ''status'' of
             Some (PDict st) \<Rightarrow>
               (case map_of st ''objects'' of
                  None \<Rightarrow> True
                | Some (PList xs) \<Rightarrow> list_all well_formed_entry xs
                | Some v \<Rightarrow> \<not> truthy v)
           | _ \<Rightarrow> False)
      | _ \<Rightarrow> False)"

definition migrated_record :: "pyval \<Rightarrow> pyval" where
  "migrated_record t =
     (if references t = [] then t else put_objects t (map rewrite (references t)))"

definition rewrite_count :: "pyval \<Rightarrow> nat" where
  "rewrite_count t = length (filter stale (references t))"

text \<open>The positions the outer loop appends, for records stored from position \<open>a\<close> on.\<close>

fun appended :: "nat \<Rightarrow> pyval list \<Rightarrow> nat list" where
  "appended a [] = []"
| "appended a (t # ts) = replicate (rewrite_count t) a @ appended (Suc a) ts"

text \<open>The records \<open>perform_migrations\<close> iterates over: the elements of \<open>ti_list\<close>.\<close>

definition input_records :: "pyval \<Rightarrow> error + pyval list" where
  "input_records templateinstances = bind_err (select_ti_list templateinstances) py_iter"

text \<open>
  Whether the selection takes \<open>items\<close>, and the argument as the call leaves it: the stores
  go into the records of \<open>items\<close>, or into the argument itself when it is the one record.
\<close>

definition selects_items :: "pyval \<Rightarrow> bool" where
  "selects_items templateinstances =
     (py_get templateinstances ''kind'' = Inr (PStr ''TemplateInstanceList'') \<and>
      (case py_get templateinstances ''items'' of Inl e \<Rightarrow> False | Inr v \<Rightarrow> truthy v))"

definition input_after :: "pyval \<Rightarrow> migration \<Rightarrow> pyval" where
  "input_after templateinstances m =
     (if selects_items templateinstances
      then dict_put templateinstances ''items'' (PList (records m))
      else (case records m of [] \<Rightarrow> templateinstances | t # ts \<Rightarrow> t))"

section \<open>Example documents\<close>

text \<open>
  An entry \<open>{ref: {apiVersion: v, kind: k}}\<close> of \<open>status.objects\<close>, a TemplateInstance
  with the given entries, and a TemplateInstanceList of the given items.
\<close>

definition entry :: "string \<Rightarrow> string \<Rightarrow> pyval" where
  "entry k v = PDict [(''ref'', PDict [(''apiVersion'', PStr v), (''kind'', PStr k)])]"

definition instance_with :: "pyval list \<Rightarrow> pyval" where
  "instance_with objs =
     PDict [(''kind'', PStr ''TemplateInstance''),
            (''status'', PDict [(''objects'', PList objs)])]"

definition instance_list :: "pyval list \<Rightarrow> pyval" where
  "instance_list items = PDict [(''kind'', PStr ''TemplateInstanceList''), (''items'', PList items)]"

text \<open>A cluster that answers every read with the same document and echoes a patch.\<close>

definition echo_client :: "pyval \<Rightarrow> client" where
  "echo_client doc =
     \<lparr>get_namespaced = (\<lambda>ns. Inr doc), get_all = Inr doc, status_patch = (\<lambda>ti. Inr ti)\<rparr>"

section \<open>The loops, computed\<close>

lemma bind_err_simps [simp]:
  "bind_err (Inl e) f = Inl e"
  "bind_err (Inr x) f = f x"
  by (simp_all add: bind_err_def)

lemma bind_err_Inr_iff: "bind_err m f = Inr y \<longleftrightarrow> (\<exists>x. m = Inr x \<and> f x = Inr y)"
  by (cases m) simp_all

lemma has_objects_iff:
  "has_objects t xs \<longleftrightarrow>
     (\<exists>kvs st. t = PDict kvs \<and> map_of kvs ''status'' = Some (PDict st) \<and>
        map_of st ''objects'' = Some (PList xs))"
  by (simp add: has_objects_def split: pyval.split option.split)

lemma has_objects_put: "has_objects t xs \<Longrightarrow> has_objects (put_objects t ys) ys"
  by (auto simp: has_objects_def put_objects_def update_conv' split: pyval.splits option.splits)

lemma put_objects_put: "has_objects t xs \<Longrightarrow> put_objects (put_objects t ys) zs = put_objects t zs"
  by (auto simp: has_objects_def put_objects_def update_conv' split: pyval.splits option.splits)

lemma put_objects_same: "has_objects t xs \<Longrightarrow> put_objects t xs = t"
  by (auto simp: has_objects_def put_objects_def update_triv split: pyval.splits option.splits)

lemma has_objects_unique: "has_objects t xs \<Longrightarrow> has_objects t ys \<Longrightarrow> xs = ys"
  by (auto simp: has_objects_def split: pyval.splits option.splits)

lemma well_formed_entryE:
  assumes "well_formed_entry obj"
  obtains kvs r k where "obj = PDict kvs" "map_of kvs ''ref'' = Some (PDict r)"
    "map_of r ''kind'' = Some k" "hashable k"
  using assms by (auto simp: well_formed_entry_def entry_ref_def split: pyval.splits option.splits)

lemma transforms_contains_hashable:
  "hashable k \<Longrightarrow> transforms_contains k = Inr (select_canonical_version k \<noteq> None)"
  by (cases k) (simp_all add: select_canonical_version_def)

lemma transforms_getitem_canonical:
  "select_canonical_version k = Some v \<Longrightarrow> transforms_getitem k = Inr (PStr v)"
  by (cases k) (simp_all add: select_canonical_version_def)

lemma needs_migration_stale:
  assumes "well_formed_entry obj" "entry_ref obj = Some r" "map_of r ''kind'' = Some k"
  shows "needs_migration obj k = Inr (stale obj)"
proof -
  from assms obtain kvs where obj: "obj = PDict kvs" "map_of kvs ''ref'' = Some (PDict r)"
    by (auto simp: entry_ref_def split: pyval.splits option.splits)
  from assms have h: "hashable k"
    by (auto simp: well_formed_entry_def)
  show ?thesis
  proof (cases "select_canonical_version k")
    case None
    then show ?thesis using assms h
      by (simp add: needs_migration_def transforms_contains_hashable stale_def entry_canonical_def)
  next
    case (Some v)
    then show ?thesis using assms h obj
      by (auto simp: needs_migration_def transforms_contains_hashable stale_def api_version_def
          entry_canonical_def transforms_getitem_canonical split: option.splits)
  qed
qed

lemma rewrite_fresh: "\<not> stale obj \<Longrightarrow> rewrite obj = obj"
  by (simp add: rewrite_def)

lemma set_apiVersion_put:
  assumes "has_objects t (done @ obj # rest)" "stale obj" "entry_canonical obj = Some v"
  shows "set_apiVersion t (length done) (PStr v) = Inr (put_objects t (done @ rewrite obj # rest))"
  using assms
proof -
  from assms(2,3) obtain kvs r where obj: "obj = PDict kvs" "map_of kvs ''ref'' = Some (PDict r)"
    by (auto simp: entry_canonical_def entry_ref_def split: pyval.splits option.splits)
  then have rw: "rewrite obj =
      PDict (AList.update ''ref'' (PDict (AList.update ''apiVersion'' (PStr v) r)) kvs)"
    using assms(2,3) by (simp add: rewrite_def entry_ref_def)
  from assms(1) obtain tk st where t: "t = PDict tk" "map_of tk ''status'' = Some (PDict st)"
    "map_of st ''objects'' = Some (PList (done @ obj # rest))"
    by (auto simp: has_objects_iff)
  show ?thesis
    unfolding rw using t obj
    by (simp add: set_apiVersion_def put_objects_def)
qed

lemma migrate_objects_ok:
  "has_objects t (done @ todo) \<Longrightarrow> list_all well_formed_entry todo \<Longrightarrow>
   migrate_objects t (length done) todo =
     Inr (put_objects t (done @ map rewrite todo), length (filter stale todo))"
proof (induction todo arbitrary: t "done")
  case Nil
  then show ?case by (simp add: put_objects_same)
next
  case (Cons obj rest)
  from Cons.prems have wf: "well_formed_entry obj" and wfr: "list_all well_formed_entry rest"
    by simp_all
  from wf obtain kvs r k where obj: "obj = PDict kvs" "map_of kvs ''ref'' = Some (PDict r)"
    "map_of r ''kind'' = Some k" "hashable k"
    by (rule well_formed_entryE)
  then have er: "entry_ref obj = Some r" by (simp add: entry_ref_def)
  have nm: "needs_migration obj k = Inr (stale obj)"
    using wf er obj(3) by (rule needs_migration_stale)
  show ?case
  proof (cases "stale obj")
    case True
    then obtain v where v: "entry_canonical obj = Some v"
      by (auto simp: stale_def split: option.splits)
    then have sv: "select_canonical_version k = Some v"
      using er obj by (simp add: entry_canonical_def)
    let ?t' = "put_objects t (done @ rewrite obj # rest)"
    have st: "set_apiVersion t (length done) (PStr v) = Inr ?t'"
      using Cons.prems(1) True v by (rule set_apiVersion_put)
    have ho: "has_objects ?t' ((done @ [rewrite obj]) @ rest)"
      using has_objects_put [OF Cons.prems(1)] by simp
    have ih: "migrate_objects ?t' (length (done @ [rewrite obj])) rest =
        Inr (put_objects ?t' ((done @ [rewrite obj]) @ map rewrite rest), length (filter stale rest))"
      using ho wfr by (rule Cons.IH)
    show ?thesis
      using True obj nm st ih put_objects_put [OF Cons.prems(1)]
      by (simp add: transforms_getitem_canonical [OF sv])
  next
    case False
    have ho: "has_objects t ((done @ [obj]) @ rest)"
      using Cons.prems(1) by simp
    have ih: "migrate_objects t (length (done @ [obj])) rest =
        Inr (put_objects t ((done @ [obj]) @ map rewrite rest), length (filter stale rest))"
      using ho wfr by (rule Cons.IH)
    show ?thesis
      using False obj nm ih by (simp add: rewrite_fresh)
  qed
qed

lemma migrate_objects_wf:
  "migrate_objects t i todo = Inr r \<Longrightarrow> list_all well_formed_entry todo"
proof (induction todo arbitrary: t i r)
  case Nil
  then show ?case by simp
next
  case (Cons obj rest)
  from Cons.prems obtain ref k s where
    a: "py_getitem obj ''ref'' = Inr ref" "py_getitem ref ''kind'' = Inr k"
       "needs_migration obj k = Inr s"
    by (auto simp: bind_err_Inr_iff)
  have wf: "well_formed_entry obj"
    using a
    by (cases obj; cases ref; cases k)
       (auto simp: well_formed_entry_def entry_ref_def needs_migration_def split: option.splits)
  have "list_all well_formed_entry rest"
  proof (cases s)
    case True
    with Cons.prems a obtain t' r' where "migrate_objects t' (Suc i) rest = Inr r'"
      by (auto simp: bind_err_Inr_iff)
    then show ?thesis by (rule Cons.IH)
  next
    case False
    with Cons.prems a have "migrate_objects t (Suc i) rest = Inr r"
      by simp
    then show ?thesis by (rule Cons.IH)
  qed
  with wf show ?case by simp
qed

lemma migrate_objects_list:
  assumes "has_objects t xs"
  shows "migrate_objects t 0 xs = Inr r \<longleftrightarrow>
     list_all well_formed_entry xs \<and> r = (put_objects t (map rewrite xs), length (filter stale xs))"
  using migrate_objects_ok [of t "[]" xs] migrate_objects_wf [of t 0 xs r] assms by auto

lemma references_objects: "has_objects t xs \<Longrightarrow> references t = xs"
  by (auto simp: has_objects_iff references_def)

lemma migrate_objects_chars: "s \<noteq> [] \<Longrightarrow> migrate_objects t i (map (\<lambda>c. PStr [c]) s) = Inl TypeError"
  by (cases s) simp_all

lemma migrate_objects_keys: "d \<noteq> [] \<Longrightarrow> migrate_objects t i (map (\<lambda>kv. PStr (fst kv)) d) = Inl TypeError"
  by (cases d) simp_all

lemma migrate_elem_iff:
  "migrate_elem t = Inr r \<longleftrightarrow> well_formed_record t \<and> r = (migrated_record t, rewrite_count t)"
proof (cases t)
  case (PDict kvs)
  show ?thesis
  proof (cases "map_of kvs ''status''")
    case None
    with PDict show ?thesis by (simp add: migrate_elem_def well_formed_record_def)
  next
    case (Some st)
    show ?thesis
    proof (cases st)
      case st: (PDict stl)
      show ?thesis
      proof (cases "map_of stl ''objects''")
        case None
        with PDict Some st show ?thesis
          by (auto simp: migrate_elem_def well_formed_record_def migrated_record_def
              rewrite_count_def references_def)
      next
        case objs: (Some v)
        show ?thesis
        proof (cases v)
          case (PList xs)
          show ?thesis
          proof (cases "xs = []")
            case True
            with PDict Some st objs PList show ?thesis
              by (auto simp: migrate_elem_def well_formed_record_def migrated_record_def
                  rewrite_count_def references_def)
          next
            case False
            have ho: "has_objects t xs"
              using PDict Some st objs PList by (simp add: has_objects_iff)
            have me: "migrate_elem t = migrate_objects t 0 xs"
              using PDict Some st objs PList False by (simp add: migrate_elem_def)
            have wf: "well_formed_record t = list_all well_formed_entry xs"
              using PDict Some st objs PList by (simp add: well_formed_record_def)
            show ?thesis
              unfolding me wf migrate_objects_list [OF ho]
              using False by (simp add: migrated_record_def rewrite_count_def references_objects [OF ho])
          qed
        next
          case (PStr s)
          with PDict Some st objs show ?thesis
            by (auto simp: migrate_elem_def well_formed_record_def migrated_record_def
                rewrite_count_def references_def migrate_objects_chars)
        next
          case d: (PDict d)
          with PDict Some st objs show ?thesis
            by (auto simp: migrate_elem_def well_formed_record_def migrated_record_def
                rewrite_count_def references_def migrate_objects_keys)
        qed (use PDict Some st objs in \<open>auto simp: migrate_elem_def well_formed_record_def
                migrated_record_def rewrite_count_def references_def\<close>)
      qed
    qed (use PDict Some in \<open>simp_all add: migrate_elem_def well_formed_record_def\<close>)
  qed
qed (simp_all add: migrate_elem_def well_formed_record_def)

lemma migrate_loop_iff:
  "migrate_loop a ts = Inr rs \<longleftrightarrow>
     list_all well_formed_record ts \<and> rs = (map migrated_record ts, appended a ts)"
proof (induction ts arbitrary: a rs)
  case Nil
  then show ?case by auto
next
  case (Cons t ts)
  show ?case
    by (auto simp: bind_err_Inr_iff migrate_elem_iff Cons.IH)
qed

lemma perform_migrations_iff:
  "perform_migrations ti = Inr m \<longleftrightarrow>
     (\<exists>elems. input_records ti = Inr elems \<and> list_all well_formed_record elems \<and>
        m = \<lparr>records = map migrated_record elems, migrated = appended 0 elems\<rparr>)"
  by (auto simp: perform_migrations_def input_records_def bind_err_Inr_iff migrate_loop_iff)

lemma set_appended:
  "j \<in> set (appended a ts) \<longleftrightarrow> a \<le> j \<and> j < a + length ts \<and> 0 < rewrite_count (ts ! (j - a))"
proof (induction ts arbitrary: a)
  case Nil
  then show ?case by simp
next
  case (Cons t ts)
  show ?case
  proof (cases "j = a")
    case True
    have "j \<notin> set (appended (Suc a) ts)"
      using Cons.IH [of "Suc a"] True by simp
    with True show ?thesis by auto
  next
    case False
    then show ?thesis
      using Cons.IH [of "Suc a"] by (auto simp: Suc_diff_le nth_Cons')
  qed
qed

lemma count_appended:
  "count_list (appended a ts) j =
     (if a \<le> j \<and> j < a + length ts then rewrite_count (ts ! (j - a)) else 0)"
proof (induction ts arbitrary: a)
  case Nil
  then show ?case by simp
next
  case (Cons t ts)
  have rep: "count_list (replicate n x) y = (if y = x then n else 0)" for n and x y :: nat
    by (induction n) auto
  show ?case
  proof (cases "j = a")
    case True
    have "count_list (appended (Suc a) ts) j = 0"
      using Cons.IH [of "Suc a"] True by simp
    with True show ?thesis by (simp add: rep)
  next
    case False
    then show ?thesis
      using Cons.IH [of "Suc a"] by (auto simp: rep Suc_diff_le nth_Cons')
  qed
qed

section \<open>What a rewrite does to an entry and to a record\<close>

lemma entry_ref_rewrite:
  "entry_ref (rewrite obj) =
     (if stale obj then
        (case (entry_ref obj, entry_canonical obj) of
           (Some r, Some v) \<Rightarrow> Some (AList.update ''apiVersion'' (PStr v) r)
         | _ \<Rightarrow> entry_ref obj)
      else entry_ref obj)"
  by (cases obj)
     (auto simp: rewrite_def entry_ref_def update_conv' stale_def entry_canonical_def
       split: option.splits pyval.splits)

lemma stale_has_ref: "stale obj \<Longrightarrow> \<exists>r v. entry_ref obj = Some r \<and> entry_canonical obj = Some v"
  by (auto simp: stale_def entry_canonical_def split: option.splits)

lemma entry_canonical_rewrite: "entry_canonical (rewrite obj) = entry_canonical obj"
proof (cases "stale obj")
  case True
  then obtain r v where rv: "entry_ref obj = Some r" "entry_canonical obj = Some v"
    using stale_has_ref by blast
  then show ?thesis
    using True by (simp add: entry_canonical_def entry_ref_rewrite update_conv')
next
  case False
  then show ?thesis by (simp add: rewrite_fresh)
qed

lemma api_version_rewrite:
  "api_version (rewrite obj) =
     (if stale obj then map_option PStr (entry_canonical obj) else api_version obj)"
proof (cases "stale obj")
  case True
  then obtain r v where rv: "entry_ref obj = Some r" "entry_canonical obj = Some v"
    using stale_has_ref by blast
  then show ?thesis
    using True by (simp add: api_version_def entry_ref_rewrite update_conv')
next
  case False
  then show ?thesis by (simp add: rewrite_fresh)
qed

lemma not_stale_rewrite: "\<not> stale (rewrite obj)"
proof (cases "stale obj")
  case True
  then obtain r v where rv: "entry_ref obj = Some r" "entry_canonical obj = Some v"
    using stale_has_ref by blast
  with True show ?thesis
    by (simp add: stale_def [of "rewrite obj"] entry_canonical_rewrite api_version_rewrite)
next
  case False
  then show ?thesis by (simp add: rewrite_fresh)
qed

lemma well_formed_rewrite: "well_formed_entry obj \<Longrightarrow> well_formed_entry (rewrite obj)"
proof (cases "stale obj")
  case True
  assume wf: "well_formed_entry obj"
  from True obtain r v where rv: "entry_ref obj = Some r" "entry_canonical obj = Some v"
    using stale_has_ref by blast
  with True wf show ?thesis
    by (simp add: well_formed_entry_def entry_ref_rewrite update_conv')
next
  case False
  assume "well_formed_entry obj"
  with False show ?thesis by (simp add: rewrite_fresh)
qed

lemma rewrite_idem: "rewrite (rewrite obj) = rewrite obj"
  by (simp add: rewrite_fresh not_stale_rewrite)

lemma stale_changes: "stale obj \<longleftrightarrow> api_version (rewrite obj) \<noteq> api_version obj"
  by (auto simp: api_version_rewrite stale_def split: option.splits)

lemma references_alt:
  "references t = xs \<longleftrightarrow> (if xs = [] then references t = [] else has_objects t xs)"
  by (auto simp: references_def has_objects_iff split: pyval.splits option.splits)

lemma references_has_objects: "references t \<noteq> [] \<Longrightarrow> has_objects t (references t)"
  using references_alt [of t "references t"] by simp

lemma references_migrated: "references (migrated_record t) = map rewrite (references t)"
proof (cases "references t = []")
  case True
  then show ?thesis by (simp add: migrated_record_def)
next
  case False
  then have "has_objects t (references t)" by (rule references_has_objects)
  then have "has_objects (migrated_record t) (map rewrite (references t))"
    using False by (simp add: migrated_record_def has_objects_put)
  then show ?thesis by (rule references_objects)
qed

lemma rewrite_count_migrated: "rewrite_count (migrated_record t) = 0"
  by (simp add: rewrite_count_def references_migrated filter_empty_conv not_stale_rewrite)

lemma migrated_record_idem: "migrated_record (migrated_record t) = migrated_record t"
proof (cases "references t = []")
  case True
  then show ?thesis by (simp add: migrated_record_def)
next
  case False
  then have ho: "has_objects t (references t)" by (rule references_has_objects)
  have rm: "map rewrite (references (migrated_record t)) = map rewrite (references t)"
    by (simp add: references_migrated rewrite_idem comp_def)
  have mt: "migrated_record t = put_objects t (map rewrite (references t))"
    using False by (simp add: migrated_record_def)
  have "migrated_record (migrated_record t) =
      put_objects (migrated_record t) (map rewrite (references (migrated_record t)))"
    using False by (simp add: migrated_record_def [of "migrated_record t"] references_migrated)
  also have "\<dots> = put_objects (migrated_record t) (map rewrite (references t))"
    by (simp only: rm)
  also have "\<dots> = migrated_record t"
    unfolding mt by (rule put_objects_put [OF ho])
  finally show ?thesis .
qed

lemma well_formed_migrated: "well_formed_record t \<Longrightarrow> well_formed_record (migrated_record t)"
proof (cases "references t = []")
  case True
  assume "well_formed_record t"
  with True show ?thesis by (simp add: migrated_record_def)
next
  case False
  assume wf: "well_formed_record t"
  from False have ho: "has_objects t (references t)" by (rule references_has_objects)
  then obtain kvs st where t: "t = PDict kvs" "map_of kvs ''status'' = Some (PDict st)"
    "map_of st ''objects'' = Some (PList (references t))"
    by (auto simp: has_objects_iff)
  from wf t have "list_all well_formed_entry (references t)"
    by (simp add: well_formed_record_def)
  then have "list_all well_formed_entry (map rewrite (references t))"
    by (simp add: list_all_iff well_formed_rewrite)
  moreover have "migrated_record t =
      PDict (AList.update ''status''
        (PDict (AList.update ''objects'' (PList (map rewrite (references t))) st)) kvs)"
    using False t by (simp add: migrated_record_def put_objects_def)
  ultimately show ?thesis
    by (simp add: well_formed_record_def update_conv')
qed

section \<open>The claims\<close>

lemmas eval_defs = perform_migrations_def select_ti_list_def migrate_elem_def needs_migration_def
  set_apiVersion_def transforms_def entry_def instance_with_def instance_list_def returned_def
  input_records_def

lemma records_nth:
  assumes "perform_migrations ti = Inr m" "input_records ti = Inr elems" "a < length elems"
  shows "records m ! a = migrated_record (elems ! a)" "migrated m = appended 0 elems"
    "well_formed_record (elems ! a)"
  using assms by (auto simp: perform_migrations_iff list_all_length)

text \<open>
  The references are read under the key \<open>ref\<close> of each entry, as the cluster stores
  them. An entry that holds \<open>kind\<close> and \<open>apiVersion\<close> directly is not one the loop can
  read: \<open>obj["ref"]\<close> raises.
\<close>

lemma flat_entry_raises:
  "perform_migrations
     (PDict [(''status'', PDict [(''objects'',
        PList [PDict [(''kind'', PStr ''Route''),
                      (''apiVersion'', PStr ''route.openshift.io/v1.Route'')]])])]) =
     Inl (KeyError (PStr ''ref''))"
  by (simp add: eval_defs)

text \<open>
  C9. One record whose \<open>status.objects\<close> holds a Route reference at
  \<open>route.openshift.io/v1.Route\<close> and then a Secret reference at \<open>v1\<close>: the returned list
  has length 1 and holds that record, the Route reference now at \<open>route.openshift.io/v1\<close>
  and the Secret reference as it was. The record is given on its own and as the one item
  of a TemplateInstanceList.
\<close>

theorem C9_route_and_secret:
  "map_sum id returned (perform_migrations
      (instance_with [entry ''Route'' ''route.openshift.io/v1.Route'', entry ''Secret'' ''v1''])) =
     Inr [instance_with [entry ''Route'' ''route.openshift.io/v1'', entry ''Secret'' ''v1'']] \<and>
   map_sum id returned (perform_migrations
      (instance_list
        [instance_with [entry ''Route'' ''route.openshift.io/v1.Route'', entry ''Secret'' ''v1'']])) =
     Inr [instance_with [entry ''Route'' ''route.openshift.io/v1'', entry ''Secret'' ''v1'']]"
  by (simp add: eval_defs)

text \<open>
  C1, as the code has it. A record is appended to the returned list once for every one of
  its object references rewritten in the call: position \<open>a\<close> occurs in the list as many
  times as record \<open>a\<close> had stale references.
\<close>

theorem C1_once_per_rewritten_reference:
  assumes "perform_migrations ti = Inr m" "input_records ti = Inr elems" "a < length elems"
  shows "count_list (migrated m) a = length (filter stale (references (elems ! a)))"
  using records_nth(2) [OF assms] assms(3) by (simp add: count_appended rewrite_count_def)

theorem C1_once_per_rewritten_reference_witness:
  "perform_migrations (instance_with [entry ''Route'' ''v1'', entry ''Build'' ''v1'']) =
     Inr \<lparr>records = [instance_with [entry ''Route'' ''route.openshift.io/v1'',
                                      entry ''Build'' ''build.openshift.io/v1'']],
          migrated = [0, 0]\<rparr> \<and>
   input_records (instance_with [entry ''Route'' ''v1'', entry ''Build'' ''v1'']) =
     Inr [instance_with [entry ''Route'' ''v1'', entry ''Build'' ''v1'']] \<and>
   length (filter stale (references
     (instance_with [entry ''Route'' ''v1'', entry ''Build'' ''v1'']))) = 2"
proof -
  let ?ti = "instance_with [entry ''Route'' ''v1'', entry ''Build'' ''v1'']"
  let ?m = "\<lparr>records = [instance_with [entry ''Route'' ''route.openshift.io/v1'',
                                      entry ''Build'' ''build.openshift.io/v1'']],
          migrated = [0, 0]\<rparr>"
  have p: "perform_migrations ?ti = Inr ?m"
    by (simp add: eval_defs)
  have i: "input_records ?ti = Inr [?ti]"
    by (simp add: eval_defs)
  have "count_list (migrated ?m) 0 = length (filter stale (references ([?ti] ! 0)))"
    using p i by (rule C1_once_per_rewritten_reference) simp
  then have "length (filter stale (references ?ti)) = 2"
    by simp
  with p i show ?thesis by simp
qed

text \<open>
  C1, as the claim states it, fails: a record with two stale references is returned twice.
\<close>

theorem C1_counterexample:
  "map_sum id returned (perform_migrations
      (instance_with [entry ''Route'' ''v1'', entry ''Build'' ''v1''])) =
     Inr [instance_with [entry ''Route'' ''route.openshift.io/v1'',
                         entry ''Build'' ''build.openshift.io/v1''],
          instance_with [entry ''Route'' ''route.openshift.io/v1'',
                         entry ''Build'' ''build.openshift.io/v1'']]"
  by (simp add: eval_defs)

lemma migrated_lt:
  assumes "perform_migrations ti = Inr m" "input_records ti = Inr elems"
  shows "set (migrated m) \<subseteq> {..<length elems}"
  using assms by (auto simp: perform_migrations_iff set_appended)

lemma included_iff_stale:
  assumes "perform_migrations ti = Inr m" "input_records ti = Inr elems" "a < length elems"
  shows "a \<in> set (migrated m) \<longleftrightarrow> (\<exists>obj \<in> set (references (elems ! a)). stale obj)"
proof -
  have "a \<in> set (migrated m) \<longleftrightarrow> 0 < rewrite_count (elems ! a)"
    using records_nth(2) [OF assms] assms(3) by (simp add: set_appended)
  also have "\<dots> \<longleftrightarrow> (\<exists>obj \<in> set (references (elems ! a)). stale obj)"
    by (auto simp: rewrite_count_def filter_empty_conv)
  finally show ?thesis .
qed

lemma references_after:
  assumes "perform_migrations ti = Inr m" "input_records ti = Inr elems" "a < length elems"
  shows "references (records m ! a) = map rewrite (references (elems ! a))"
  using records_nth(1) [OF assms] by (simp add: references_migrated)

text \<open>
  C3. When the call returns, the record at position \<open>a\<close> of the input is in the returned
  list exactly when one of its references has a kind of the canonical map and a stored
  version other than the canonical one before the call, which is exactly when the call
  changed the \<open>apiVersion\<close> of one of its references; and the returned list holds input
  records only.
\<close>

theorem C3_included_iff_reference_changed:
  assumes "perform_migrations ti = Inr m" "input_records ti = Inr elems" "a < length elems"
  shows "(a \<in> set (migrated m) \<longleftrightarrow> (\<exists>obj \<in> set (references (elems ! a)). stale obj)) \<and>
         (a \<in> set (migrated m) \<longleftrightarrow>
            (\<exists>i < length (references (elems ! a)).
               api_version (references (records m ! a) ! i) \<noteq>
               api_version (references (elems ! a) ! i))) \<and>
         set (migrated m) \<subseteq> {..<length elems}"
proof -
  let ?refs = "references (elems ! a)"
  have inc: "a \<in> set (migrated m) \<longleftrightarrow> (\<exists>obj \<in> set ?refs. stale obj)"
    using assms by (rule included_iff_stale)
  have after: "references (records m ! a) = map rewrite ?refs"
    using assms by (rule references_after)
  have "(\<exists>obj \<in> set ?refs. stale obj) \<longleftrightarrow> (\<exists>i < length ?refs. stale (?refs ! i))"
    by (metis in_set_conv_nth)
  also have "\<dots> \<longleftrightarrow> (\<exists>i < length ?refs.
      api_version (references (records m ! a) ! i) \<noteq> api_version (?refs ! i))"
    unfolding after by (auto simp: stale_changes)
  finally have chg: "(\<exists>obj \<in> set ?refs. stale obj) \<longleftrightarrow> (\<exists>i < length ?refs.
      api_version (references (records m ! a) ! i) \<noteq> api_version (?refs ! i))" .
  show ?thesis
    using inc chg migrated_lt [OF assms(1,2)] by simp
qed

theorem C3_included_iff_reference_changed_witness:
  "perform_migrations (instance_list [instance_with [entry ''Pod'' ''v1''],
                                      instance_with [entry ''Route'' ''v1'']]) =
     Inr \<lparr>records = [instance_with [entry ''Pod'' ''v1''],
                     instance_with [entry ''Route'' ''route.openshift.io/v1'']],
          migrated = [1]\<rparr> \<and>
   input_records (instance_list [instance_with [entry ''Pod'' ''v1''],
                                 instance_with [entry ''Route'' ''v1'']]) =
     Inr [instance_with [entry ''Pod'' ''v1''], instance_with [entry ''Route'' ''v1'']] \<and>
   (\<exists>obj \<in> set (references (instance_with [entry ''Route'' ''v1''])). stale obj) \<and>
   \<not> (\<exists>obj \<in> set (references (instance_with [entry ''Pod'' ''v1''])). stale obj)"
proof -
  let ?ti = "instance_list [instance_with [entry ''Pod'' ''v1''],
                            instance_with [entry ''Route'' ''v1'']]"
  let ?elems = "[instance_with [entry ''Pod'' ''v1''], instance_with [entry ''Route'' ''v1'']]"
  let ?m = "\<lparr>records = [instance_with [entry ''Pod'' ''v1''],
                        instance_with [entry ''Route'' ''route.openshift.io/v1'']],
             migrated = [1]\<rparr>"
  have p: "perform_migrations ?ti = Inr ?m"
    by (simp add: eval_defs)
  have i: "input_records ?ti = Inr ?elems"
    by (simp add: eval_defs)
  have one: "(1::nat) < length ?elems" and zero: "(0::nat) < length ?elems"
    by simp_all
  have "\<exists>obj \<in> set (references (?elems ! 1)). stale obj"
    using C3_included_iff_reference_changed [OF p i one] by simp
  moreover have "\<not> (\<exists>obj \<in> set (references (?elems ! 0)). stale obj)"
    using C3_included_iff_reference_changed [OF p i zero] by simp
  ultimately show ?thesis
    using p i by simp
qed

text \<open>
  C4. When the call returns, every reference of every record comes out as \<open>rewrite\<close>
  leaves it: if its kind has a canonical version and its \<open>apiVersion\<close> is another value
  or is absent, the \<open>apiVersion\<close> is the canonical version afterwards and the record is in
  the returned list; otherwise the entry is as it was. The list keeps its length.
\<close>

theorem C4_rewrite_exactly_when_stale:
  assumes "perform_migrations ti = Inr m" "input_records ti = Inr elems" "a < length elems"
    and "i < length (references (elems ! a))"
  shows "length (references (records m ! a)) = length (references (elems ! a)) \<and>
         references (records m ! a) ! i = rewrite (references (elems ! a) ! i) \<and>
         (case entry_canonical (references (elems ! a) ! i) of
            None \<Rightarrow> references (records m ! a) ! i = references (elems ! a) ! i
          | Some v \<Rightarrow>
              if api_version (references (elems ! a) ! i) = Some (PStr v)
              then references (records m ! a) ! i = references (elems ! a) ! i
              else api_version (references (records m ! a) ! i) = Some (PStr v) \<and>
                   a \<in> set (migrated m))"
proof -
  let ?obj = "references (elems ! a) ! i"
  have after: "references (records m ! a) = map rewrite (references (elems ! a))"
    using assms(1-3) by (rule references_after)
  then have nth: "references (records m ! a) ! i = rewrite ?obj"
    using assms(4) by simp
  have inc: "stale ?obj \<Longrightarrow> a \<in> set (migrated m)"
    using included_iff_stale [OF assms(1-3)] assms(4) by auto
  have cases: "case entry_canonical ?obj of
            None \<Rightarrow> rewrite ?obj = ?obj
          | Some v \<Rightarrow>
              if api_version ?obj = Some (PStr v) then rewrite ?obj = ?obj
              else api_version (rewrite ?obj) = Some (PStr v) \<and> a \<in> set (migrated m)"
  proof (cases "entry_canonical ?obj")
    case None
    then have "\<not> stale ?obj" by (simp add: stale_def)
    with None show ?thesis by (simp add: rewrite_fresh)
  next
    case (Some v)
    show ?thesis
    proof (cases "api_version ?obj = Some (PStr v)")
      case True
      with Some have "\<not> stale ?obj" by (simp add: stale_def)
      with Some True show ?thesis by (simp add: rewrite_fresh)
    next
      case False
      with Some have "stale ?obj" by (simp add: stale_def)
      with Some False inc show ?thesis by (simp add: api_version_rewrite)
    qed
  qed
  have len: "length (references (records m ! a)) = length (references (elems ! a))"
    using after by simp
  show ?thesis
    unfolding nth using len cases by (auto split: option.splits)
qed

theorem C4_rewrite_exactly_when_stale_witness:
  "perform_migrations (instance_with [entry ''Route'' ''v1'', entry ''Secret'' ''v1'']) =
     Inr \<lparr>records = [instance_with [entry ''Route'' ''route.openshift.io/v1'',
                                      entry ''Secret'' ''v1'']],
          migrated = [0]\<rparr> \<and>
   input_records (instance_with [entry ''Route'' ''v1'', entry ''Secret'' ''v1'']) =
     Inr [instance_with [entry ''Route'' ''v1'', entry ''Secret'' ''v1'']] \<and>
   rewrite (entry ''Route'' ''v1'') = entry ''Route'' ''route.openshift.io/v1'' \<and>
   rewrite (entry ''Secret'' ''v1'') = entry ''Secret'' ''v1''"
proof -
  let ?ti = "instance_with [entry ''Route'' ''v1'', entry ''Secret'' ''v1'']"
  let ?m = "\<lparr>records = [instance_with [entry ''Route'' ''route.openshift.io/v1'',
                                         entry ''Secret'' ''v1'']],
             migrated = [0]\<rparr>"
  have p: "perform_migrations ?ti = Inr ?m"
    by (simp add: eval_defs)
  have i: "input_records ?ti = Inr [?ti]"
    by (simp add: eval_defs)
  have a: "(0::nat) < length [?ti]"
    by simp
  have refs: "references ?ti = [entry ''Route'' ''v1'', entry ''Secret'' ''v1'']"
    "references (instance_with [entry ''Route'' ''route.openshift.io/v1'',
                                entry ''Secret'' ''v1'']) =
       [entry ''Route'' ''route.openshift.io/v1'', entry ''Secret'' ''v1'']"
    by (simp_all add: references_def instance_with_def)
  have i0: "0 < length (references ([?ti] ! 0))" and i1: "1 < length (references ([?ti] ! 0))"
    by (simp_all add: refs)
  have "rewrite (entry ''Route'' ''v1'') = entry ''Route'' ''route.openshift.io/v1''"
    using C4_rewrite_exactly_when_stale [OF p i a i0] by (simp add: refs)
  moreover have "rewrite (entry ''Secret'' ''v1'') = entry ''Secret'' ''v1''"
    using C4_rewrite_exactly_when_stale [OF p i a i1] by (simp add: refs)
  ultimately show ?thesis
    using p i by simp
qed

lemma stale_canonical: "stale obj \<Longrightarrow> entry_canonical obj \<noteq> None"
  by (auto simp: stale_def split: option.splits)

text \<open>
  C6. When the call returns, an entry whose reference has a kind outside the canonical
  map (as \<open>Secret\<close> is) comes out as it went in, whatever its \<open>apiVersion\<close>; and the
  number of times a record is returned counts its stale references of canonical kinds
  only, so that a record all of whose kinds are outside the map is not returned.
\<close>

theorem C6_unmapped_kinds_untouched:
  assumes "perform_migrations ti = Inr m" "input_records ti = Inr elems" "a < length elems"
  shows "(\<forall>i < length (references (elems ! a)).
            entry_canonical (references (elems ! a) ! i) = None \<longrightarrow>
            references (records m ! a) ! i = references (elems ! a) ! i) \<and>
         count_list (migrated m) a =
           length (filter stale
             (filter (\<lambda>obj. entry_canonical obj \<noteq> None) (references (elems ! a)))) \<and>
         ((\<forall>obj \<in> set (references (elems ! a)). entry_canonical obj = None) \<longrightarrow>
            a \<notin> set (migrated m)) \<and>
         select_canonical_version (PStr ''Secret'') = None"
proof -
  let ?refs = "references (elems ! a)"
  have after: "references (records m ! a) = map rewrite ?refs"
    using assms by (rule references_after)
  have same: "\<forall>i < length ?refs. entry_canonical (?refs ! i) = None \<longrightarrow>
      references (records m ! a) ! i = ?refs ! i"
    unfolding after by (simp add: rewrite_fresh stale_def)
  have "count_list (migrated m) a = length (filter stale ?refs)"
    using records_nth(2) [OF assms] assms(3) by (simp add: count_appended rewrite_count_def)
  also have "filter stale ?refs = filter stale (filter (\<lambda>obj. entry_canonical obj \<noteq> None) ?refs)"
    unfolding filter_filter by (rule filter_cong) (auto dest: stale_canonical)
  finally have cnt: "count_list (migrated m) a =
      length (filter stale (filter (\<lambda>obj. entry_canonical obj \<noteq> None) ?refs))" .
  have none: "(\<forall>obj \<in> set ?refs. entry_canonical obj = None) \<longrightarrow> a \<notin> set (migrated m)"
    using included_iff_stale [OF assms] by (auto simp: stale_def)
  have secret: "select_canonical_version (PStr ''Secret'') = None"
    by (simp add: select_canonical_version_def transforms_def)
  from same cnt none secret show ?thesis by blast
qed

theorem C6_unmapped_kinds_untouched_witness:
  "perform_migrations (instance_list [instance_with [entry ''Secret'' ''v0''],
      instance_with [entry ''Secret'' ''v1'', entry ''Route'' ''v1'']]) =
     Inr \<lparr>records = [instance_with [entry ''Secret'' ''v0''],
             instance_with [entry ''Secret'' ''v1'', entry ''Route'' ''route.openshift.io/v1'']],
          migrated = [1]\<rparr> \<and>
   input_records (instance_list [instance_with [entry ''Secret'' ''v0''],
      instance_with [entry ''Secret'' ''v1'', entry ''Route'' ''v1'']]) =
     Inr [instance_with [entry ''Secret'' ''v0''],
          instance_with [entry ''Secret'' ''v1'', entry ''Route'' ''v1'']] \<and>
   entry_canonical (entry ''Secret'' ''v0'') = None \<and>
   length (filter stale (filter (\<lambda>obj. entry_canonical obj \<noteq> None)
     (references (instance_with [entry ''Secret'' ''v1'', entry ''Route'' ''v1''])))) = 1"
proof -
  let ?r0 = "instance_with [entry ''Secret'' ''v0'']"
  let ?r1 = "instance_with [entry ''Secret'' ''v1'', entry ''Route'' ''v1'']"
  let ?m = "\<lparr>records = [instance_with [entry ''Secret'' ''v0''],
             instance_with [entry ''Secret'' ''v1'', entry ''Route'' ''route.openshift.io/v1'']],
          migrated = [1]\<rparr>"
  have p: "perform_migrations (instance_list [?r0, ?r1]) = Inr ?m"
    by (simp add: eval_defs)
  have i: "input_records (instance_list [?r0, ?r1]) = Inr [?r0, ?r1]"
    by (simp add: eval_defs)
  have one: "(1::nat) < length [?r0, ?r1]"
    by simp
  have c: "entry_canonical (entry ''Secret'' ''v0'') = None"
    by (simp add: entry_canonical_def entry_ref_def entry_def select_canonical_version_def
        transforms_def)
  have "count_list (migrated ?m) 1 =
      length (filter stale (filter (\<lambda>obj. entry_canonical obj \<noteq> None)
        (references ([?r0, ?r1] ! 1))))"
    using C6_unmapped_kinds_untouched [OF p i one] by blast
  then have "length (filter stale (filter (\<lambda>obj. entry_canonical obj \<noteq> None)
      (references ?r1))) = 1"
    by simp
  with p i c show ?thesis by simp
qed

text \<open>
  C2, as the code has it. Given the records to iterate over, the call returns exactly
  when every record is well formed: a dictionary whose \<open>status\<close> is a dictionary and whose
  \<open>status.objects\<close>, if present and true in a condition, is a list of entries that each
  hold a \<open>ref\<close> dictionary with a hashable \<open>kind\<close>. Then a record with no list at
  \<open>status.objects\<close> has no references, is left as it was and is not returned.
\<close>

theorem C2_returns_iff_well_formed:
  assumes "input_records ti = Inr elems"
  shows "((\<exists>m. perform_migrations ti = Inr m) \<longleftrightarrow> list_all well_formed_record elems) \<and>
         (\<forall>m a. perform_migrations ti = Inr m \<and> a < length elems \<and>
                 references (elems ! a) = [] \<longrightarrow>
                 a \<notin> set (migrated m) \<and> records m ! a = elems ! a)"
proof -
  have ret: "(\<exists>m. perform_migrations ti = Inr m) \<longleftrightarrow> list_all well_formed_record elems"
    using assms by (simp add: perform_migrations_iff)
  have empty: "a \<notin> set (migrated m) \<and> records m ! a = elems ! a"
    if "perform_migrations ti = Inr m" "a < length elems" "references (elems ! a) = []" for m a
  proof -
    have "a \<notin> set (migrated m)"
      using included_iff_stale [OF that(1) assms that(2)] that(3) by simp
    moreover have "records m ! a = elems ! a"
      using records_nth(1) [OF that(1) assms that(2)] that(3) by (simp add: migrated_record_def)
    ultimately show ?thesis ..
  qed
  from ret empty show ?thesis by blast
qed

theorem C2_returns_iff_well_formed_witness:
  "input_records (instance_list [PDict [(''status'', PDict [])],
                                 instance_with [entry ''Route'' ''v1'']]) =
     Inr [PDict [(''status'', PDict [])], instance_with [entry ''Route'' ''v1'']] \<and>
   list_all well_formed_record
     [PDict [(''status'', PDict [])], instance_with [entry ''Route'' ''v1'']] \<and>
   perform_migrations (instance_list [PDict [(''status'', PDict [])],
                                      instance_with [entry ''Route'' ''v1'']]) =
     Inr \<lparr>records = [PDict [(''status'', PDict [])],
                     instance_with [entry ''Route'' ''route.openshift.io/v1'']],
          migrated = [1]\<rparr>"
proof -
  let ?elems = "[PDict [(''status'', PDict [])], instance_with [entry ''Route'' ''v1'']]"
  have i: "input_records (instance_list ?elems) = Inr ?elems"
    by (simp add: eval_defs)
  have p: "perform_migrations (instance_list ?elems) =
      Inr \<lparr>records = [PDict [(''status'', PDict [])],
                      instance_with [entry ''Route'' ''route.openshift.io/v1'']],
           migrated = [1]\<rparr>"
    by (simp add: eval_defs)
  then have "\<exists>m. perform_migrations (instance_list ?elems) = Inr m"
    by blast
  then have "list_all well_formed_record ?elems"
    using C2_returns_iff_well_formed [OF i] by blast
  with i p show ?thesis by simp
qed

text \<open>
  C2, as the claim states it, fails: a record with no \<open>status\<close> raises \<open>KeyError\<close>, and so
  does an entry whose reference has no \<open>kind\<close>.
\<close>

theorem C2_counterexample:
  "perform_migrations (instance_list [PDict [(''metadata'', PDict [(''name'', PStr ''a'')])]]) =
     Inl (KeyError (PStr ''status'')) \<and>
   perform_migrations (instance_list
      [instance_with [PDict [(''ref'', PDict [(''apiVersion'', PStr ''v1'')])]]]) =
     Inl (KeyError (PStr ''kind''))"
  by (simp add: eval_defs)

text \<open>
  C10. A TemplateInstanceList whose \<open>items\<close> is absent, \<open>None\<close> or the empty list is
  itself taken as the one record to process: the call does to it what the loop body does
  to a record, so that, having no \<open>status\<close>, it raises \<open>KeyError\<close> rather than returning
  an empty list.
\<close>

theorem C10_empty_list_is_processed_as_record:
  assumes "map_of kvs ''kind'' = Some (PStr ''TemplateInstanceList'')"
    and "map_of kvs ''items'' = None \<or> map_of kvs ''items'' = Some PNone \<or>
         map_of kvs ''items'' = Some (PList [])"
  shows "select_ti_list (PDict kvs) = Inr (PList [PDict kvs]) \<and>
         perform_migrations (PDict kvs) =
           bind_err (migrate_elem (PDict kvs))
             (\<lambda>r. Inr \<lparr>records = [fst r], migrated = replicate (snd r) 0\<rparr>) \<and>
         (map_of kvs ''status'' = None \<longrightarrow>
            perform_migrations (PDict kvs) = Inl (KeyError (PStr ''status'')))"
proof -
  have sel: "select_ti_list (PDict kvs) = Inr (PList [PDict kvs])"
    using assms by (auto simp: select_ti_list_def)
  have run: "perform_migrations (PDict kvs) =
      bind_err (migrate_elem (PDict kvs))
        (\<lambda>r. Inr \<lparr>records = [fst r], migrated = replicate (snd r) 0\<rparr>)"
    by (cases "migrate_elem (PDict kvs)") (simp_all add: perform_migrations_def sel)
  have "perform_migrations (PDict kvs) = Inl (KeyError (PStr ''status''))"
    if "map_of kvs ''status'' = None"
    unfolding run using that by (simp add: migrate_elem_def)
  with sel run show ?thesis by simp
qed

theorem C10_empty_list_is_processed_as_record_witness:
  "map_of [(''kind'', PStr ''TemplateInstanceList''), (''items'', PList [])] ''kind'' =
     Some (PStr ''TemplateInstanceList'') \<and>
   map_of [(''kind'', PStr ''TemplateInstanceList''), (''items'', PList [])] ''items'' =
     Some (PList []) \<and>
   perform_migrations (instance_list []) = Inl (KeyError (PStr ''status''))"
proof -
  let ?kvs = "[(''kind'', PStr ''TemplateInstanceList''), (''items'', PList [])]"
  have k: "map_of ?kvs ''kind'' = Some (PStr ''TemplateInstanceList'')"
    by simp
  have it: "map_of ?kvs ''items'' = None \<or> map_of ?kvs ''items'' = Some PNone \<or>
      map_of ?kvs ''items'' = Some (PList [])"
    by simp
  have "map_of ?kvs ''status'' = None \<longrightarrow>
      perform_migrations (PDict ?kvs) = Inl (KeyError (PStr ''status''))"
    using C10_empty_list_is_processed_as_record [OF k it] by blast
  then have "perform_migrations (PDict ?kvs) = Inl (KeyError (PStr ''status''))"
    by simp
  then show ?thesis
    by (simp add: instance_list_def)
qed

lemma appended_nil: "\<forall>t \<in> set ts. rewrite_count t = 0 \<Longrightarrow> appended a ts = []"
  by (induction ts arbitrary: a) simp_all

lemma select_cases:
  assumes "select_ti_list ti = Inr v"
  shows "(selects_items ti \<and> py_get ti ''items'' = Inr v \<and> truthy v) \<or>
         (\<not> selects_items ti \<and> v = PList [ti])"
  using assms
  by (cases ti) (auto simp: select_ti_list_def selects_items_def split: if_splits)

lemma iter_well_formed:
  assumes "py_iter v = Inr elems" "truthy v" "list_all well_formed_record elems"
  shows "v = PList elems"
proof (cases v)
  case (PStr s)
  with assms(2) obtain c cs where "s = c # cs" by (cases s) auto
  with PStr assms(1,3) show ?thesis by (auto simp: well_formed_record_def)
next
  case (PDict d)
  with assms(2) obtain kv kvs where "d = kv # kvs" by (cases d) auto
  with PDict assms(1,3) show ?thesis by (auto simp: well_formed_record_def)
qed (use assms in auto)

lemma select_single:
  "\<not> selects_items t \<Longrightarrow> well_formed_record t \<Longrightarrow> select_ti_list t = Inr (PList [t])"
  by (cases t) (auto simp: select_ti_list_def selects_items_def well_formed_record_def)

lemma selects_items_migrated: "selects_items (migrated_record t) = selects_items t"
  by (auto simp: migrated_record_def put_objects_def selects_items_def update_conv'
      split: pyval.splits option.splits)

lemma perform_again:
  assumes "input_records ti' = Inr (map migrated_record elems)"
    and "list_all well_formed_record elems"
  shows "perform_migrations ti' =
    Inr \<lparr>records = map migrated_record elems, migrated = []\<rparr>"
proof -
  have wf: "list_all well_formed_record (map migrated_record elems)"
    using assms(2) by (simp add: list_all_iff well_formed_migrated)
  have app: "appended 0 (map migrated_record elems) = []"
    by (rule appended_nil) (simp add: rewrite_count_migrated)
  have idem: "map migrated_record (map migrated_record elems) = map migrated_record elems"
    by (simp add: migrated_record_idem)
  show ?thesis
    unfolding perform_migrations_iff using assms(1) wf app idem by simp
qed

text \<open>
  C5. When a call has returned, a second call on the argument as the first one left it
  returns the empty list and changes no record.
\<close>

theorem C5_second_pass_returns_nothing:
  assumes "perform_migrations ti = Inr m"
  shows "perform_migrations (input_after ti m) = Inr \<lparr>records = records m, migrated = []\<rparr> \<and>
         map_sum id returned (perform_migrations (input_after ti m)) = Inr []"
proof -
  from assms obtain elems where elems: "input_records ti = Inr elems"
    "list_all well_formed_record elems"
    and m: "m = \<lparr>records = map migrated_record elems, migrated = appended 0 elems\<rparr>"
    by (auto simp: perform_migrations_iff)
  from elems(1) obtain v where v: "select_ti_list ti = Inr v" "py_iter v = Inr elems"
    by (auto simp: input_records_def bind_err_Inr_iff)
  have again: "input_records (input_after ti m) = Inr (map migrated_record elems)"
    using select_cases [OF v(1)]
  proof
    assume a: "selects_items ti \<and> py_get ti ''items'' = Inr v \<and> truthy v"
    then have vl: "v = PList elems"
      using v(2) elems(2) iter_well_formed by blast
    with a have ne: "elems \<noteq> []" by auto
    from a obtain kvs where ti: "ti = PDict kvs" by (cases ti) auto
    have kind: "map_of kvs ''kind'' = Some (PStr ''TemplateInstanceList'')"
      using a ti by (auto simp: selects_items_def split: option.splits)
    have "input_after ti m = PDict (AList.update ''items'' (PList (map migrated_record elems)) kvs)"
      using a ti m by (simp add: input_after_def)
    then show ?thesis
      using kind ne by (simp add: input_records_def select_ti_list_def update_conv')
  next
    assume a: "\<not> selects_items ti \<and> v = PList [ti]"
    with v(2) have e: "elems = [ti]" by simp
    with elems(2) have wf: "well_formed_record (migrated_record ti)"
      by (simp add: well_formed_migrated)
    have "input_after ti m = migrated_record ti"
      using a m e by (simp add: input_after_def)
    moreover have "select_ti_list (migrated_record ti) = Inr (PList [migrated_record ti])"
      using a wf by (simp add: select_single selects_items_migrated)
    ultimately show ?thesis
      using e by (simp add: input_records_def)
  qed
  have "perform_migrations (input_after ti m) =
      Inr \<lparr>records = map migrated_record elems, migrated = []\<rparr>"
    using again elems(2) by (rule perform_again)
  then show ?thesis
    using m by (simp add: returned_def)
qed

theorem C5_second_pass_returns_nothing_witness:
  "perform_migrations (instance_list [instance_with [entry ''Route'' ''v1'']]) =
     Inr \<lparr>records = [instance_with [entry ''Route'' ''route.openshift.io/v1'']],
          migrated = [0]\<rparr> \<and>
   perform_migrations (instance_list [instance_with [entry ''Route'' ''route.openshift.io/v1'']]) =
     Inr \<lparr>records = [instance_with [entry ''Route'' ''route.openshift.io/v1'']],
          migrated = []\<rparr>"
proof -
  let ?ti = "instance_list [instance_with [entry ''Route'' ''v1'']]"
  let ?m = "\<lparr>records = [instance_with [entry ''Route'' ''route.openshift.io/v1'']],
             migrated = [0]\<rparr>"
  have p: "perform_migrations ?ti = Inr ?m"
    by (simp add: eval_defs)
  have after: "input_after ?ti ?m =
      instance_list [instance_with [entry ''Route'' ''route.openshift.io/v1'']]"
    by (simp add: input_after_def selects_items_def instance_list_def)
  have "perform_migrations (input_after ?ti ?m) = Inr \<lparr>records = records ?m, migrated = []\<rparr>"
    using C5_second_pass_returns_nothing [OF p] by blast
  then have "perform_migrations
      (instance_list [instance_with [entry ''Route'' ''route.openshift.io/v1'']]) =
     Inr \<lparr>records = [instance_with [entry ''Route'' ''route.openshift.io/v1'']],
          migrated = []\<rparr>"
    unfolding after by simp
  with p show ?thesis by simp
qed

lemma patch_loop_ok:
  "\<forall>t \<in> set ts. status_patch c t = Inr (f t) \<Longrightarrow>
   patch_loop c ts = (map Patch ts, Inr (map f ts))"
  by (induction ts) (simp_all add: patch_template_instance_def)

text \<open>
  C7. With a namespace given, the run makes one call, the read of that namespace, and no
  patch; it ends with \<open>changed = False\<close> and an empty result whatever the document read
  holds, or with \<open>fail_json\<close> when the read raised. \<open>perform_migrations\<close> is not run.
\<close>

theorem C7_namespace_branch_reads_only:
  assumes "namespace_given namespace"
  shows "fst (execute_module c namespace check_mode) = [Get namespace] \<and>
         (\<forall>ti. Patch ti \<notin> set (fst (execute_module c namespace check_mode))) \<and>
         snd (execute_module c namespace check_mode) =
           (case get_namespaced c (the namespace) of
              Inl exc \<Rightarrow> Fail_json (Retrieve_failed (the namespace) exc)
            | Inr templateinstances \<Rightarrow> Exit_json False [])"
  using assms by (auto simp: execute_module_def split: sum.splits)

theorem C7_namespace_branch_reads_only_witness:
  "namespace_given (Some ''test'') \<and>
   execute_module (echo_client (instance_list [instance_with [entry ''Route'' ''v1'']]))
     (Some ''test'') False =
     ([Get (Some ''test'')], Exit_json False [])"
proof -
  let ?c = "echo_client (instance_list [instance_with [entry ''Route'' ''v1'']])"
  have g: "namespace_given (Some ''test'')"
    by simp
  have "fst (execute_module ?c (Some ''test'') False) = [Get (Some ''test'')] \<and>
      snd (execute_module ?c (Some ''test'') False) =
        (case get_namespaced ?c (the (Some ''test'')) of
           Inl exc \<Rightarrow> Fail_json (Retrieve_failed (the (Some ''test'')) exc)
         | Inr templateinstances \<Rightarrow> Exit_json False [])"
    using C7_namespace_branch_reads_only [OF g, of ?c False] by blast
  then have "fst (execute_module ?c (Some ''test'') False) = [Get (Some ''test'')] \<and>
      snd (execute_module ?c (Some ''test'') False) = Exit_json False []"
    by (simp add: echo_client_def)
  then have "execute_module ?c (Some ''test'') False = ([Get (Some ''test'')], Exit_json False [])"
    by (simp add: prod_eq_iff)
  with g show ?thesis by simp
qed

text \<open>
  C8, as the code has it. With no namespace given, the document read and the migration
  returned: if nothing is to be migrated the run ends with \<open>changed = False\<close> and an
  empty result, in check mode too; otherwise check mode ends with \<open>changed = True\<close> and the
  records to migrate, having made no patch, and a real run patches each record of the
  list in order and, all patches returning, ends with \<open>changed = True\<close> and the patched
  records.
\<close>

theorem C8_all_namespaces_branch:
  assumes "\<not> namespace_given namespace" "get_all c = Inr ti" "perform_migrations ti = Inr m"
  shows "(returned m = [] \<longrightarrow>
            execute_module c namespace check_mode = ([Get None], Exit_json False [])) \<and>
         (returned m \<noteq> [] \<and> check_mode \<longrightarrow>
            execute_module c namespace check_mode = ([Get None], Exit_json True (returned m))) \<and>
         (returned m \<noteq> [] \<and> \<not> check_mode \<and>
            (\<forall>t \<in> set (returned m). status_patch c t = Inr (f t)) \<longrightarrow>
            execute_module c namespace check_mode =
              (Get None # map Patch (returned m), Exit_json True (map f (returned m))))"
proof -
  have none: "execute_module c namespace check_mode = ([Get None], Exit_json False [])"
    if "returned m = []"
    using assms that by (simp add: execute_module_def)
  have dry: "execute_module c namespace check_mode = ([Get None], Exit_json True (returned m))"
    if "returned m \<noteq> []" "check_mode"
    using assms that by (simp add: execute_module_def)
  have real: "execute_module c namespace check_mode =
      (Get None # map Patch (returned m), Exit_json True (map f (returned m)))"
    if "returned m \<noteq> []" "\<not> check_mode"
      "\<forall>t \<in> set (returned m). status_patch c t = Inr (f t)"
  proof -
    have "patch_loop c (returned m) = (map Patch (returned m), Inr (map f (returned m)))"
      using that(3) by (rule patch_loop_ok)
    then show ?thesis
      using assms that(1,2) by (simp add: execute_module_def Let_def)
  qed
  from none dry real show ?thesis by blast
qed

theorem C8_all_namespaces_branch_witness:
  "execute_module (echo_client (instance_list [instance_with [entry ''Route'' ''v1'']]))
     None True =
     ([Get None], Exit_json True [instance_with [entry ''Route'' ''route.openshift.io/v1'']]) \<and>
   execute_module (echo_client (instance_list [instance_with [entry ''Route'' ''v1'']]))
     None False =
     ([Get None, Patch (instance_with [entry ''Route'' ''route.openshift.io/v1''])],
      Exit_json True [instance_with [entry ''Route'' ''route.openshift.io/v1'']])"
proof -
  let ?ti = "instance_list [instance_with [entry ''Route'' ''v1'']]"
  let ?c = "echo_client ?ti"
  let ?m = "\<lparr>records = [instance_with [entry ''Route'' ''route.openshift.io/v1'']],
             migrated = [0]\<rparr>"
  have n: "\<not> namespace_given None"
    by simp
  have g: "get_all ?c = Inr ?ti"
    by (simp add: echo_client_def)
  have p: "perform_migrations ?ti = Inr ?m"
    by (simp add: eval_defs)
  have r: "returned ?m = [instance_with [entry ''Route'' ''route.openshift.io/v1'']]"
    by (simp add: returned_def)
  have e: "\<forall>t \<in> set (returned ?m). status_patch ?c t = Inr (id t)"
    by (simp add: echo_client_def)
  have "execute_module ?c None True = ([Get None], Exit_json True (returned ?m))"
    using C8_all_namespaces_branch [OF n g p, of True id] r by simp
  moreover have "execute_module ?c None False =
      (Get None # map Patch (returned ?m), Exit_json True (map id (returned ?m)))"
    using C8_all_namespaces_branch [OF n g p, of False id] r e by simp
  ultimately show ?thesis
    by (simp add: r)
qed

text \<open>
  C8, as the claim states it, fails: in check mode with nothing to migrate the run ends
  with \<open>changed = False\<close>.
\<close>

theorem C8_counterexample:
  "execute_module (echo_client (instance_list [instance_with [entry ''Secret'' ''v1'']]))
     None True = ([Get None], Exit_json False [])"
  by (simp add: execute_module_def echo_client_def eval_defs)

end
